theory Spec2Isabelle
  imports Complex_Main "HOL-Library.Char_ord" "HOL-Library.List_Lexorder" "HOL-Library.Log_Nat"
begin

section \<open>Python values and built-ins used by the script\<close>

text \<open>
  The exceptions the modelled code can raise. A parsing failure of \<open>int()\<close>,
  \<open>float()\<close> or \<open>pd.to_datetime\<close>, the duplicate check of \<open>DataFrame.pivot\<close> and
  matplotlib's rejection of an axis limit that is NaN or infinite are \<open>ValueError\<close> (or
  a subclass of it); a missing DataFrame column is \<open>KeyError\<close>; \<open>.iloc[-1]\<close> on an
  empty column is \<open>IndexError\<close>; \<open>OverflowError\<close> stands for any of the errors
  pandas raises when a Timestamp or Timedelta leaves the 64-bit nanosecond range.
\<close>

datatype error = ValueError | KeyError | IndexError | OverflowError

text \<open>
  A Python float is an IEEE double: NaN (also the marker pandas uses for a missing cell),
  the two infinities, negative zero, or a finite value given by the real number it
  denotes (\<open>Fin 0\<close> is positive zero).
\<close>

datatype pyfloat = NaN | PInf | NInf | NegZero | Fin real

text \<open>\<open>s.startswith(p)\<close> and the slice \<open>s[1:]\<close>.\<close>

definition startswith :: "string \<Rightarrow> string \<Rightarrow> bool" where
  "startswith s p \<longleftrightarrow> take (length p) s = p"

definition slice_from1 :: "string \<Rightarrow> string" where
  "slice_from1 s = drop 1 s"

section \<open>The raw payload\<close>

text \<open>
  The JSON document returned by \<open>get_bls_data\<close>. The statistics API sends the year as a
  string; a JSON number is accepted by \<open>int()\<close> as well, so the field is either.
  Throughout, \<open>int_of\<close> stands for Python's \<open>int()\<close> on a string and \<open>float_of\<close> for
  \<open>float()\<close>, with \<open>None\<close> where they raise \<open>ValueError\<close>; both are parameters of the
  model, so every statement holds for the built-ins whatever they accept.
\<close>

datatype json_year = JInt int | JStr string

fun int_of_year :: "(string \<Rightarrow> int option) \<Rightarrow> json_year \<Rightarrow> int option" where
  "int_of_year int_of (JInt i) = Some i"
| "int_of_year int_of (JStr s) = int_of s"

record item =
  year :: json_year
  period :: string
  val :: string

record series =
  seriesID :: string
  data :: "item list"

type_synonym raw_data = "series list"

section \<open>Timestamps\<close>

text \<open>
  A Timestamp is given by its count of nanoseconds since 1970-01-01 and a Timedelta by
  its count of nanoseconds. In the renderer they are 64-bit quantities (the smallest
  value is reserved for NaT).
\<close>

type_synonym timestamp = int
type_synonym timedelta = int

definition ns_per_day :: int where
  "ns_per_day = 86400 * 1000000000"

definition in_bounds :: "int \<Rightarrow> bool" where
  "in_bounds v \<longleftrightarrow> - (2 ^ 63) < v \<and> v < 2 ^ 63"

text \<open>Days from 1970-01-01 to a date of the proleptic Gregorian calendar.\<close>

definition days_from_civil :: "int \<Rightarrow> int \<Rightarrow> int \<Rightarrow> int" where
  "days_from_civil y m d =
     (let y' = (if m \<le> 2 then y - 1 else y);
          era = y' div 400;
          yoe = y' - era * 400;
          doy = (153 * (if m > 2 then m - 3 else m + 9) + 2) div 5 + d - 1;
          doe = yoe * 365 + yoe div 4 - yoe div 100 + doy
      in era * 146097 + doe - 719468)"

definition first_of_month :: "int \<Rightarrow> int \<Rightarrow> timestamp" where
  "first_of_month y m = days_from_civil y m 1 * ns_per_day"

section \<open>process\_bls\_data\<close>

record 'd data_point =
  series_id :: string
  date :: 'd
  pvalue :: pyfloat

text \<open>
  One pass of the inner loop body; the result is the list of entries appended to
  \<open>data_points\<close>. The date text \<open>f"{year}-{month:02d}-01"\<close> is determined by the pair
  (year, month), which the model keeps in its place.
\<close>

definition process_item ::
    "(string \<Rightarrow> int option) \<Rightarrow> (string \<Rightarrow> pyfloat option) \<Rightarrow> string \<Rightarrow> item
      \<Rightarrow> error + (int \<times> int) data_point list" where
  "process_item int_of float_of sid it =
     (case int_of_year int_of (year it) of
        None \<Rightarrow> Inl ValueError
      | Some y \<Rightarrow>
          if startswith (period it) ''M'' then
            (case int_of (slice_from1 (period it)) of
               None \<Rightarrow> Inl ValueError
             | Some month \<Rightarrow>
                 (case float_of (val it) of
                    None \<Rightarrow> Inl ValueError
                  | Some v \<Rightarrow> Inr [\<lparr>series_id = sid, date = (y, month), pvalue = v\<rparr>]))
          else Inr [])"

fun items_loop ::
    "(string \<Rightarrow> int option) \<Rightarrow> (string \<Rightarrow> pyfloat option) \<Rightarrow> string \<Rightarrow> item list
      \<Rightarrow> (int \<times> int) data_point list \<Rightarrow> error + (int \<times> int) data_point list" where
  "items_loop int_of float_of sid [] data_points = Inr data_points"
| "items_loop int_of float_of sid (it # its) data_points =
     (case process_item int_of float_of sid it of
        Inl e \<Rightarrow> Inl e
      | Inr ps \<Rightarrow> items_loop int_of float_of sid its (data_points @ ps))"

fun series_loop ::
    "(string \<Rightarrow> int option) \<Rightarrow> (string \<Rightarrow> pyfloat option) \<Rightarrow> raw_data
      \<Rightarrow> (int \<times> int) data_point list \<Rightarrow> error + (int \<times> int) data_point list" where
  "series_loop int_of float_of [] data_points = Inr data_points"
| "series_loop int_of float_of (s # ss) data_points =
     (case items_loop int_of float_of (seriesID s) (data s) data_points of
        Inl e \<Rightarrow> Inl e
      | Inr data_points' \<Rightarrow> series_loop int_of float_of ss data_points')"

text \<open>
  \<open>df["date"] = pd.to_datetime(df["date"])\<close>: the whole column converts or the call
  raises. A text is plain when its year is one of 1678..2261 (four digits, every day of
  the year inside the nanosecond range) and its month field is one of 01..99. A column of
  plain texts converts to midnight of each day when every month field is a month, and is
  refused when one is not (13..99). For a column that holds any other text (a year of
  another length or range, a month field that is zero, negative or longer) pandas
  falls back on format guessing that depends on the whole column and on its version;
  \<open>other\<close> stands for that behaviour: it refuses the column (\<open>None\<close>) or reads
  each text as some date, the same text as the same date.
\<close>

definition plain_date :: "int \<times> int \<Rightarrow> bool" where
  "plain_date ym \<longleftrightarrow> 1678 \<le> fst ym \<and> fst ym \<le> 2261 \<and> 1 \<le> snd ym \<and> snd ym \<le> 99"

definition set_dates :: "('a \<Rightarrow> 'b) \<Rightarrow> 'a data_point list \<Rightarrow> 'b data_point list" where
  "set_dates f pts =
     map (\<lambda>p. \<lparr>series_id = series_id p, date = f (date p), pvalue = pvalue p\<rparr>) pts"

definition to_datetime_column ::
    "((int \<times> int) list \<Rightarrow> ((int \<times> int) \<Rightarrow> timestamp) option) \<Rightarrow> (int \<times> int) data_point list
      \<Rightarrow> error + timestamp data_point list" where
  "to_datetime_column other pts =
     (if list_all (\<lambda>p. plain_date (date p)) pts then
        (if list_all (\<lambda>p. snd (date p) \<le> 12) pts
         then Inr (set_dates (\<lambda>ym. first_of_month (fst ym) (snd ym)) pts)
         else Inl ValueError)
      else
        (case other (map date pts) of
           None \<Rightarrow> Inl ValueError
         | Some f \<Rightarrow> Inr (set_dates f pts)))"

text \<open>
  A DataFrame in wide format: the row index and, for each column label, the cells of
  that column in index order.
\<close>

record dataframe =
  index :: "timestamp list"
  columns :: "(string \<times> pyfloat list) list"

definition cell :: "timestamp data_point list \<Rightarrow> timestamp \<Rightarrow> string \<Rightarrow> pyfloat" where
  "cell rows d c =
     (case find (\<lambda>r. date r = d \<and> series_id r = c) rows of
        None \<Rightarrow> NaN
      | Some r \<Rightarrow> pvalue r)"

text \<open>
  \<open>df.pivot(index="date", columns="series_id", values="value")\<close>: a repeated
  (date, series\_id) pair raises \<open>ValueError\<close> ("Index contains duplicate entries, cannot
  reshape"); otherwise the distinct dates, sorted, are the index, the distinct series
  ids, sorted, are the columns, and a pair that does not occur is NaN.
\<close>

definition pivot :: "timestamp data_point list \<Rightarrow> error + dataframe" where
  "pivot rows =
     (if \<not> distinct (map (\<lambda>r. (date r, series_id r)) rows) then Inl ValueError
      else
        let idx = sort (remdups (map date rows));
            cols = sort (remdups (map series_id rows))
        in Inr \<lparr>index = idx, columns = map (\<lambda>c. (c, map (\<lambda>d. cell rows d c) idx)) cols\<rparr>)"

text \<open>
  \<open>pd.DataFrame(data_points)\<close> of an empty list has no columns at all, so the
  subscript \<open>df["date"]\<close> raises \<open>KeyError\<close>.
\<close>

definition process_bls_data ::
    "(string \<Rightarrow> int option) \<Rightarrow> (string \<Rightarrow> pyfloat option)
      \<Rightarrow> ((int \<times> int) list \<Rightarrow> ((int \<times> int) \<Rightarrow> timestamp) option)
      \<Rightarrow> raw_data \<Rightarrow> error + dataframe" where
  "process_bls_data int_of float_of other raw =
     (case series_loop int_of float_of raw [] of
        Inl e \<Rightarrow> Inl e
      | Inr data_points \<Rightarrow>
          if data_points = [] then Inl KeyError
          else
            (case to_datetime_column other data_points of
               Inl e \<Rightarrow> Inl e
             | Inr df \<Rightarrow> pivot df))"

section \<open>Double arithmetic\<close>

text \<open>Python's \<open>int(x)\<close> on a float, also the C cast pandas uses: the fraction is dropped.\<close>

definition trunc :: "real \<Rightarrow> int" where
  "trunc x = (if 0 \<le> x then \<lfloor>x\<rfloor> else \<lceil>x\<rceil>)"

definition round_half_even :: "real \<Rightarrow> int" where
  "round_half_even x =
     (let f = \<lfloor>x\<rfloor>; d = x - of_int f
      in if d < 1 / 2 then f else if d > 1 / 2 then f + 1 else if even f then f else f + 1)"

definition pow2 :: "int \<Rightarrow> real" where
  "pow2 e = (if 0 \<le> e then 2 ^ nat e else 1 / 2 ^ nat (- e))"

text \<open>For a positive \<open>x\<close>, the exponent \<open>e\<close> with \<open>2^e \<le> x < 2^(e+1)\<close>.\<close>

definition ilog2 :: "real \<Rightarrow> int" where
  "ilog2 x =
     (if 1 \<le> x then bitlen \<lfloor>x\<rfloor> - 1
      else
        let k = bitlen \<lfloor>1 / x\<rfloor> - 1
        in if x * 2 ^ nat k = 1 then - k else - k - 1)"

text \<open>
  The double nearest to a real number (ties to the even significand): 53 significant
  bits, exponents from -1022 (below which the spacing stays 2^-1074), overflow to an
  infinity, and a zero result keeping the sign.
\<close>

definition round_double :: "real \<Rightarrow> pyfloat" where
  "round_double x =
     (if x = 0 then Fin 0
      else
        let e = max (ilog2 \<bar>x\<bar>) (- 1022);
            u = pow2 (e - 52);
            r = of_int (round_half_even (x / u)) * u
        in if 2 ^ 1024 \<le> r then PInf
           else if r \<le> - (2 ^ 1024) then NInf
           else if r = 0 then (if x < 0 then NegZero else Fin 0)
           else Fin r)"

text \<open>The product of a float with a positive finite float \<open>k\<close>.\<close>

fun pf_mul :: "pyfloat \<Rightarrow> real \<Rightarrow> pyfloat" where
  "pf_mul NaN k = NaN"
| "pf_mul PInf k = PInf"
| "pf_mul NInf k = NInf"
| "pf_mul NegZero k = NegZero"
| "pf_mul (Fin r) k = round_double (r * k)"

text \<open>The literals \<open>0.8\<close> and \<open>1.1\<close> denote the doubles nearest to them.\<close>

definition double_0_8 :: real where
  "double_0_8 = 3602879701896397 / 4503599627370496"

definition double_1_1 :: real where
  "double_1_1 = 2476979795053773 / 2251799813685248"

text \<open>
  \<open>int(x)\<close> of a float followed by the conversion to a 64-bit count of nanoseconds.
\<close>

fun to_ns :: "pyfloat \<Rightarrow> error + timedelta" where
  "to_ns NaN = Inl ValueError"
| "to_ns PInf = Inl OverflowError"
| "to_ns NInf = Inl OverflowError"
| "to_ns NegZero = Inr 0"
| "to_ns (Fin r) = (if in_bounds (trunc r) then Inr (trunc r) else Inl OverflowError)"

section \<open>Timestamp and Timedelta arithmetic\<close>

text \<open>
  \<open>pd.Timedelta(days=days * x_padding)\<close> for the integer \<open>days\<close> and the float
  \<open>x_padding\<close>: the script forms the product, and pandas computes
  \<open>int(((d * 24) * 3600) * 1_000_000_000)\<close> nanoseconds from it, every product rounded
  to a double.
\<close>

definition Timedelta_days :: "int \<Rightarrow> real \<Rightarrow> error + timedelta" where
  "Timedelta_days days x =
     to_ns (pf_mul (pf_mul (pf_mul (round_double (of_int days * x)) 24) 3600) 1000000000)"

text \<open>The \<open>.days\<close> attribute: whole days, rounded down.\<close>

definition td_days :: "timedelta \<Rightarrow> int" where
  "td_days td = td div ns_per_day"

text \<open>
  \<open>padding * 0.8\<close>: the count of nanoseconds becomes a double, is multiplied by the
  double \<open>0.8\<close>, and the product is cast back to whole nanoseconds.
\<close>

definition td_mul_0_8 :: "timedelta \<Rightarrow> error + timedelta" where
  "td_mul_0_8 td = to_ns (pf_mul (round_double (of_int td)) double_0_8)"

definition ts_diff :: "timestamp \<Rightarrow> timestamp \<Rightarrow> error + timedelta" where
  "ts_diff a b = (if in_bounds (a - b) then Inr (a - b) else Inl OverflowError)"

definition ts_sub :: "timestamp \<Rightarrow> timedelta \<Rightarrow> error + timestamp" where
  "ts_sub t d = (if in_bounds (t - d) then Inr (t - d) else Inl OverflowError)"

definition ts_add :: "timestamp \<Rightarrow> timedelta \<Rightarrow> error + timestamp" where
  "ts_add t d = (if in_bounds (t + d) then Inr (t + d) else Inl OverflowError)"

text \<open>The built-ins \<open>max(a, b)\<close> and \<open>min(a, b)\<close>: the first argument wins a tie.\<close>

definition py_max :: "'a::linorder \<Rightarrow> 'a \<Rightarrow> 'a" where
  "py_max a b = (if b > a then b else a)"

definition py_min :: "'a::linorder \<Rightarrow> 'a \<Rightarrow> 'a" where
  "py_min a b = (if b < a then b else a)"

section \<open>Float helpers of the renderer\<close>

text \<open>The numbers among the cells: NaN and the infinities left out, either zero as 0.\<close>

fun finite_vals :: "pyfloat list \<Rightarrow> real list" where
  "finite_vals [] = []"
| "finite_vals (Fin r # xs) = r # finite_vals xs"
| "finite_vals (NegZero # xs) = 0 # finite_vals xs"
| "finite_vals (x # xs) = finite_vals xs"

text \<open>
  \<open>Series.max()\<close>: NaN cells are skipped; with nothing left the result is NaN. When the
  largest value is zero and the cells hold zeros of both signs, the sign of the result
  is taken as positive; it has no influence on what follows.
\<close>

definition series_max :: "pyfloat list \<Rightarrow> pyfloat" where
  "series_max xs =
     (if PInf \<in> set xs then PInf
      else
        (case finite_vals xs of
           [] \<Rightarrow> if NInf \<in> set xs then NInf else NaN
         | r # rs \<Rightarrow>
             let m = fold max rs r
             in if m = 0 \<and> Fin 0 \<notin> set xs then NegZero else Fin m))"

text \<open>\<open>df.max().max()\<close>: the maximum of every column, then the maximum of those.\<close>

definition df_max_max :: "dataframe \<Rightarrow> pyfloat" where
  "df_max_max df = series_max (map (\<lambda>col. series_max (snd col)) (columns df))"

text \<open>
  \<open>max(x, 15)\<close> with a float first argument: the result is 15 when \<open>15 > x\<close>, so NaN
  stays.
\<close>

fun py_max_float :: "pyfloat \<Rightarrow> real \<Rightarrow> pyfloat" where
  "py_max_float NaN b = NaN"
| "py_max_float PInf b = PInf"
| "py_max_float NInf b = Fin b"
| "py_max_float NegZero b = (if b > 0 then Fin b else NegZero)"
| "py_max_float (Fin a) b = Fin (py_max a b)"

text \<open>
  The format \<open>.1f\<close>: the exact value of the double rounded to one decimal, ties to
  even; the sign of a negative value or of negative zero is kept.
\<close>

definition digit_char :: "nat \<Rightarrow> char" where
  "digit_char d = char_of (48 + d)"

fun str_nat :: "nat \<Rightarrow> string" where
  "str_nat n = (if n < 10 then [digit_char n] else str_nat (n div 10) @ [digit_char (n mod 10)])"

declare str_nat.simps [simp del]

definition format_1f :: "pyfloat \<Rightarrow> string" where
  "format_1f x =
     (case x of
        NaN \<Rightarrow> ''nan''
      | PInf \<Rightarrow> ''inf''
      | NInf \<Rightarrow> ''-inf''
      | NegZero \<Rightarrow> ''-0.0''
      | Fin r \<Rightarrow>
          let n = nat (round_half_even (\<bar>r\<bar> * 10))
          in (if r < 0 then ''-'' else []) @ str_nat (n div 10) @ ''.'' @ [digit_char (n mod 10)])"

section \<open>plot\_time\_series\<close>

text \<open>
  The options of the call that decide what is drawn where; \<open>x_padding\<close> is a finite
  float. Colours, fonts, the title, the grid, the tick format, the citation and the logo
  do not influence the limits or the annotations and are left out.
\<close>

record options =
  add_recession_shading :: bool
  show_current_value :: bool
  x_padding :: real

text \<open>
  The calls made on the axis, with their arguments: \<open>xlim\<close> and \<open>ylim\<close> are the limits
  handed to \<open>set_xlim\<close> and \<open>set_ylim\<close>, \<open>spans\<close> the \<open>axvspan\<close> calls, \<open>lines\<close> the
  \<open>plot\<close> calls, \<open>hlines\<close> the \<open>axhline\<close> calls and \<open>texts\<close> the value labels, each
  in call order. (What matplotlib makes of two identical limits is not part of the
  record.)
\<close>

record chart =
  xlim :: "timestamp \<times> timestamp"
  spans :: "(timestamp \<times> timestamp) list"
  lines :: "(string \<times> (timestamp \<times> pyfloat) list) list"
  hlines :: "pyfloat list"
  texts :: "(timestamp \<times> pyfloat \<times> string) list"
  ylim :: "real \<times> real"

definition series_names :: "string \<rightharpoonup> string" where
  "series_names = [''LNS14000000'' \<mapsto> ''U-3 Unemployment Rate (%)'']"

text \<open>The NBER list; \<open>pd.to_datetime\<close> of each text is midnight of that day.\<close>

definition recession_dates :: "(timestamp \<times> timestamp) list" where
  "recession_dates =
     [(first_of_month 2001 3, first_of_month 2001 11),
      (first_of_month 2007 12, first_of_month 2009 6),
      (first_of_month 2020 2, first_of_month 2020 4)]"

text \<open>One pass of the shading loop: the \<open>axvspan\<close> calls it makes.\<close>

definition shade :: "timestamp \<Rightarrow> timestamp \<Rightarrow> timestamp \<times> timestamp \<Rightarrow> (timestamp \<times> timestamp) list" where
  "shade x_min x_max rec =
     (case rec of (rec_start, rec_end) \<Rightarrow>
        if \<not> (rec_end < x_min \<or> rec_start > x_max)
        then [(py_max rec_start x_min, py_min rec_end x_max)]
        else [])"

text \<open>One pass of the loop over \<open>df.columns\<close>: the line, and the callout if requested.\<close>

definition plot_column ::
    "dataframe \<Rightarrow> options \<Rightarrow> timestamp \<Rightarrow> timedelta \<Rightarrow> string \<Rightarrow> chart \<Rightarrow> error + chart" where
  "plot_column df opts end_date padding column ax =
     (case map_of (columns df) column of
        None \<Rightarrow> Inl KeyError
      | Some ys \<Rightarrow>
          let series_name = (case series_names column of None \<Rightarrow> column | Some n \<Rightarrow> n);
              ax1 = ax\<lparr>lines := lines ax @ [(series_name, zip (index df) ys)]\<rparr>
          in if show_current_value opts then
               (if ys = [] then Inl IndexError
                else
                  let current_value = last ys
                  in (case td_mul_0_8 padding of
                        Inl e \<Rightarrow> Inl e
                      | Inr off \<Rightarrow>
                          (case ts_add end_date off of
                             Inl e \<Rightarrow> Inl e
                           | Inr text_x_pos \<Rightarrow>
                               Inr (ax1\<lparr>hlines := hlines ax1 @ [current_value],
                                        texts := texts ax1 @
                                          [(text_x_pos, current_value, format_1f current_value @ ''%'')]\<rparr>))))
             else Inr ax1)"

fun columns_loop ::
    "dataframe \<Rightarrow> options \<Rightarrow> timestamp \<Rightarrow> timedelta \<Rightarrow> string list \<Rightarrow> chart \<Rightarrow> error + chart" where
  "columns_loop df opts end_date padding [] ax = Inr ax"
| "columns_loop df opts end_date padding (column # cs) ax =
     (case plot_column df opts end_date padding column ax of
        Inl e \<Rightarrow> Inl e
      | Inr ax' \<Rightarrow> columns_loop df opts end_date padding cs ax')"

text \<open>
  \<open>ax.set_ylim(0, y_max)\<close>: matplotlib refuses a limit that is NaN or infinite with
  \<open>ValueError\<close>.
\<close>

definition set_ylim :: "pyfloat \<Rightarrow> chart \<Rightarrow> error + chart" where
  "set_ylim y_max ax =
     (case y_max of
        Fin t \<Rightarrow> Inr (ax\<lparr>ylim := (0, t)\<rparr>)
      | NegZero \<Rightarrow> Inr (ax\<lparr>ylim := (0, 0)\<rparr>)
      | _ \<Rightarrow> Inl ValueError)"

text \<open>
  The function itself. An empty index has NaT as minimum and maximum, and building the
  padding from it raises \<open>ValueError\<close>.
\<close>

definition plot_time_series :: "dataframe \<Rightarrow> options \<Rightarrow> error + chart" where
  "plot_time_series df opts =
     (if index df = [] then Inl ValueError
      else
        let start_date = Min (set (index df));
            end_date = Max (set (index df))
        in (case ts_diff end_date start_date of
              Inl e \<Rightarrow> Inl e
            | Inr date_range \<Rightarrow>
          (case Timedelta_days (td_days date_range) (x_padding opts) of
              Inl e \<Rightarrow> Inl e
            | Inr padding \<Rightarrow>
          (case ts_sub start_date padding of
              Inl e \<Rightarrow> Inl e
            | Inr x_min \<Rightarrow>
          (case ts_add end_date padding of
              Inl e \<Rightarrow> Inl e
            | Inr x_max \<Rightarrow>
              let ax0 = \<lparr>xlim = (x_min, x_max),
                         spans = (if add_recession_shading opts
                                  then concat (map (shade x_min x_max) recession_dates) else []),
                         lines = [], hlines = [], texts = [], ylim = (0, 1)\<rparr>
              in (case columns_loop df opts end_date padding (map fst (columns df)) ax0 of
                    Inl e \<Rightarrow> Inl e
                  | Inr ax1 \<Rightarrow>
                      let y_max = py_max_float (pf_mul (df_max_max df) double_1_1) 15
                      in set_ylim y_max ax1))))))"

section \<open>Parsers for running the model\<close>

text \<open>
  The parts of \<open>int()\<close> and \<open>float()\<close> that read a string of ASCII digits and an
  unsigned plain decimal literal such as \<open>3.5\<close>. The statements below hold for any
  \<open>int_of\<close> and \<open>float_of\<close>; these two are used where the model is run on example
  payloads, whose texts they read as the built-ins do.
\<close>

definition is_digit :: "char \<Rightarrow> bool" where
  "is_digit c \<longleftrightarrow> 48 \<le> (of_char c :: nat) \<and> (of_char c :: nat) \<le> 57"

definition digit_val :: "char \<Rightarrow> nat" where
  "digit_val c = of_char c - 48"

fun dec_val :: "nat \<Rightarrow> string \<Rightarrow> nat" where
  "dec_val acc [] = acc"
| "dec_val acc (c # cs) = dec_val (10 * acc + digit_val c) cs"

definition int_plain :: "string \<Rightarrow> int option" where
  "int_plain s = (if s \<noteq> [] \<and> list_all is_digit s then Some (int (dec_val 0 s)) else None)"

definition float_plain :: "string \<Rightarrow> pyfloat option" where
  "float_plain s =
     (let a = takeWhile is_digit s; r = dropWhile is_digit s
      in case r of
           [] \<Rightarrow> if a = [] then None else Some (round_double (of_nat (dec_val 0 a)))
         | c # b \<Rightarrow>
             if c = CHR ''.'' \<and> list_all is_digit b \<and> (a \<noteq> [] \<or> b \<noteq> [])
             then Some (round_double (of_nat (dec_val 0 (a @ b)) / 10 ^ length b)) else None)"

section \<open>Properties of the normalizer\<close>

subsection \<open>The collecting loops\<close>

lemma process_item_error: "process_item g f sid it = Inl e \<Longrightarrow> e = ValueError"
  by (auto simp: process_item_def split: option.splits if_splits)

lemma items_loop_acc:
  "items_loop g f sid its acc =
     (case items_loop g f sid its [] of Inl e \<Rightarrow> Inl e | Inr ps \<Rightarrow> Inr (acc @ ps))"
proof (induction its arbitrary: acc)
  case Nil
  show ?case by simp
next
  case (Cons it its)
  show ?case
  proof (cases "process_item g f sid it")
    case (Inl e)
    then show ?thesis by simp
  next
    case (Inr ps)
    have "items_loop g f sid its (acc @ ps) =
            (case items_loop g f sid its [] of Inl e \<Rightarrow> Inl e | Inr qs \<Rightarrow> Inr ((acc @ ps) @ qs))"
      by (rule Cons.IH)
    moreover have "items_loop g f sid its ([] @ ps) =
            (case items_loop g f sid its [] of Inl e \<Rightarrow> Inl e | Inr qs \<Rightarrow> Inr (([] @ ps) @ qs))"
      by (rule Cons.IH)
    ultimately show ?thesis using Inr by (simp split: sum.splits)
  qed
qed

lemma series_loop_acc:
  "series_loop g f raw acc =
     (case series_loop g f raw [] of Inl e \<Rightarrow> Inl e | Inr ps \<Rightarrow> Inr (acc @ ps))"
proof (induction raw arbitrary: acc)
  case Nil
  show ?case by simp
next
  case (Cons s ss)
  show ?case
  proof (cases "items_loop g f (seriesID s) (data s) []")
    case (Inl e)
    then show ?thesis
      using items_loop_acc [where its = "data s" and acc = acc and sid = "seriesID s"] by simp
  next
    case (Inr ps)
    have a: "items_loop g f (seriesID s) (data s) acc = Inr (acc @ ps)"
      using items_loop_acc [where its = "data s" and acc = acc and sid = "seriesID s" and g = g and f = f]
        Inr by simp
    have "series_loop g f ss (acc @ ps) =
            (case series_loop g f ss [] of Inl e \<Rightarrow> Inl e | Inr qs \<Rightarrow> Inr ((acc @ ps) @ qs))"
      by (rule Cons.IH)
    moreover have "series_loop g f ss ps =
            (case series_loop g f ss [] of Inl e \<Rightarrow> Inl e | Inr qs \<Rightarrow> Inr (ps @ qs))"
      by (rule Cons.IH)
    ultimately show ?thesis using Inr a by (simp split: sum.splits)
  qed
qed

text \<open>Any failing observation makes the loop fail; every failure is a ValueError.\<close>

lemma items_loop_error: "items_loop g f sid its acc = Inl e \<Longrightarrow> e = ValueError"
  by (induction its arbitrary: acc) (auto split: sum.splits dest: process_item_error)

lemma series_loop_error: "series_loop g f raw acc = Inl e \<Longrightarrow> e = ValueError"
  by (induction raw arbitrary: acc) (auto split: sum.splits dest: items_loop_error)

lemma items_loop_fails:
  "it \<in> set its \<Longrightarrow> process_item g f sid it = Inl e \<Longrightarrow> items_loop g f sid its acc = Inl ValueError"
proof (induction its arbitrary: acc)
  case Nil
  then show ?case by simp
next
  case (Cons a its)
  show ?case
  proof (cases "process_item g f sid a")
    case (Inl e')
    then show ?thesis using process_item_error [OF Inl] by simp
  next
    case (Inr ps)
    with Cons.prems have "it \<in> set its" by auto
    then show ?thesis using Cons.IH Cons.prems(2) Inr by simp
  qed
qed

lemma series_loop_fails:
  "s \<in> set raw \<Longrightarrow> it \<in> set (data s) \<Longrightarrow> process_item g f (seriesID s) it = Inl e
    \<Longrightarrow> series_loop g f raw acc = Inl ValueError"
proof (induction raw arbitrary: acc)
  case Nil
  then show ?case by simp
next
  case (Cons a raw)
  show ?case
  proof (cases "items_loop g f (seriesID a) (data a) acc")
    case (Inl e')
    then show ?thesis using items_loop_error [OF Inl] by simp
  next
    case (Inr ps)
    have "s \<noteq> a"
    proof
      assume "s = a"
      then have "items_loop g f (seriesID a) (data a) acc = Inl ValueError"
        using items_loop_fails Cons.prems by blast
      then show False using Inr by simp
    qed
    then have "s \<in> set raw" using Cons.prems(1) by simp
    then show ?thesis using Cons.IH Cons.prems Inr by simp
  qed
qed

text \<open>
  What a completed loop collected: the entries of every observation, in payload order.
\<close>

lemma items_loop_collects:
  "items_loop g f sid its acc = Inr pts \<Longrightarrow>
     pts = acc @ concat (map (\<lambda>it. case process_item g f sid it of Inl e \<Rightarrow> [] | Inr ps \<Rightarrow> ps) its)"
proof (induction its arbitrary: acc)
  case Nil
  then show ?case by simp
next
  case (Cons a its)
  from Cons.prems obtain ps where ps: "process_item g f sid a = Inr ps"
    and rest: "items_loop g f sid its (acc @ ps) = Inr pts"
    by (auto split: sum.splits)
  show ?case using Cons.IH [OF rest] ps by simp
qed

lemma items_loop_all_read:
  "items_loop g f sid its acc = Inr pts \<Longrightarrow> it \<in> set its \<Longrightarrow>
     \<exists>ps. process_item g f sid it = Inr ps"
proof (induction its arbitrary: acc)
  case Nil
  then show ?case by simp
next
  case (Cons a its)
  from Cons.prems(1) obtain ps where ps: "process_item g f sid a = Inr ps"
    and rest: "items_loop g f sid its (acc @ ps) = Inr pts"
    by (auto split: sum.splits)
  show ?case
  proof (cases "it = a")
    case True
    then show ?thesis using ps by blast
  next
    case False
    then show ?thesis using Cons.IH [OF rest] Cons.prems(2) by simp
  qed
qed

lemma series_loop_collects:
  "series_loop g f raw acc = Inr pts \<Longrightarrow>
     pts = acc @ concat (map (\<lambda>s. concat (map
             (\<lambda>it. case process_item g f (seriesID s) it of Inl e \<Rightarrow> [] | Inr ps \<Rightarrow> ps) (data s))) raw)"
proof (induction raw arbitrary: acc)
  case Nil
  then show ?case by simp
next
  case (Cons a raw)
  from Cons.prems obtain mid where mid: "items_loop g f (seriesID a) (data a) acc = Inr mid"
    and rest: "series_loop g f raw mid = Inr pts"
    by (auto split: sum.splits)
  show ?case using Cons.IH [OF rest] items_loop_collects [OF mid] by simp
qed

lemma series_loop_all_read:
  "series_loop g f raw acc = Inr pts \<Longrightarrow> s \<in> set raw \<Longrightarrow> it \<in> set (data s) \<Longrightarrow>
     \<exists>ps. process_item g f (seriesID s) it = Inr ps"
proof (induction raw arbitrary: acc)
  case Nil
  then show ?case by simp
next
  case (Cons a raw)
  from Cons.prems(1) obtain mid where mid: "items_loop g f (seriesID a) (data a) acc = Inr mid"
    and rest: "series_loop g f raw mid = Inr pts"
    by (auto split: sum.splits)
  show ?case
  proof (cases "s = a")
    case True
    then show ?thesis using items_loop_all_read [OF mid] Cons.prems(3) by blast
  next
    case False
    then show ?thesis using Cons.IH [OF rest] Cons.prems by simp
  qed
qed

text \<open>
  The data points of a completed loop are exactly the observations whose period code
  starts with \<open>M\<close>, each with its series id, its year and month as read, and its value.
\<close>

lemma series_loop_points:
  assumes "series_loop g f raw [] = Inr pts"
  shows "set pts =
         {\<lparr>series_id = seriesID s, date = (y, m), pvalue = v\<rparr> | s it y m v.
            s \<in> set raw \<and> it \<in> set (data s) \<and> startswith (period it) ''M'' \<and>
            int_of_year g (year it) = Some y \<and> g (slice_from1 (period it)) = Some m \<and>
            f (val it) = Some v}"
    (is "_ = ?R")
proof (intro set_eqI iffI)
  fix p assume "p \<in> set pts"
  then obtain s it where s: "s \<in> set raw" and it: "it \<in> set (data s)"
    and p: "p \<in> set (case process_item g f (seriesID s) it of Inl e \<Rightarrow> [] | Inr ps \<Rightarrow> ps)"
    using series_loop_collects [OF assms] by auto
  from p show "p \<in> ?R" using s it
    by (auto simp: process_item_def split: option.splits if_splits)
next
  fix p assume "p \<in> ?R"
  then obtain s it y m v where s: "s \<in> set raw" and it: "it \<in> set (data s)"
    and sw: "startswith (period it) ''M''" and y: "int_of_year g (year it) = Some y"
    and m: "g (slice_from1 (period it)) = Some m" and v: "f (val it) = Some v"
    and p: "p = \<lparr>series_id = seriesID s, date = (y, m), pvalue = v\<rparr>"
    by blast
  have "process_item g f (seriesID s) it = Inr [p]"
    using sw y m v p by (simp add: process_item_def)
  then have "p \<in> set (case process_item g f (seriesID s) it of Inl e \<Rightarrow> [] | Inr ps \<Rightarrow> ps)"
    by simp
  then show "p \<in> set pts"
    using series_loop_collects [OF assms] s it by auto
qed

text \<open>In a completed loop every observation with an \<open>M\<close> code has left a data point.\<close>

lemma series_loop_series_ids:
  assumes "series_loop g f raw [] = Inr pts"
  shows "series_id ` set pts =
         {seriesID s | s. s \<in> set raw \<and> (\<exists>it \<in> set (data s). startswith (period it) ''M'')}"
proof (intro set_eqI iffI)
  fix c assume "c \<in> series_id ` set pts"
  then show "c \<in> {seriesID s | s. s \<in> set raw \<and> (\<exists>it \<in> set (data s). startswith (period it) ''M'')}"
    unfolding series_loop_points [OF assms] by auto
next
  fix c assume "c \<in> {seriesID s | s. s \<in> set raw \<and> (\<exists>it \<in> set (data s). startswith (period it) ''M'')}"
  then obtain s it where s: "s \<in> set raw" and it: "it \<in> set (data s)"
    and sw: "startswith (period it) ''M''" and c: "c = seriesID s"
    by blast
  from series_loop_all_read [OF assms s it] obtain ps where
    "process_item g f (seriesID s) it = Inr ps" by blast
  then obtain y m v where "int_of_year g (year it) = Some y"
    "g (slice_from1 (period it)) = Some m" "f (val it) = Some v"
    using sw by (auto simp: process_item_def split: option.splits)
  then have "\<lparr>series_id = seriesID s, date = (y, m), pvalue = v\<rparr> \<in> set pts"
    unfolding series_loop_points [OF assms] using s it sw by blast
  then show "c \<in> series_id ` set pts" using c by force
qed

text \<open>
  A payload in which every year is readable and every observation with an \<open>M\<close> code
  has a readable month and value lets the loops run to the end.
\<close>

lemma process_item_succeeds:
  assumes "int_of_year g (year it) = Some y"
    and "startswith (period it) ''M'' \<longrightarrow>
           (\<exists>m v. g (slice_from1 (period it)) = Some m \<and> f (val it) = Some v)"
  shows "\<exists>ps. process_item g f sid it = Inr ps"
  using assms by (auto simp: process_item_def)

lemma items_loop_succeeds:
  assumes "\<forall>it \<in> set its. \<exists>ps. process_item g f sid it = Inr ps"
  shows "\<exists>pts. items_loop g f sid its acc = Inr pts"
  using assms
proof (induction its arbitrary: acc)
  case Nil
  show ?case by simp
next
  case (Cons a its)
  then obtain ps where "process_item g f sid a = Inr ps" by auto
  then show ?case using Cons by simp
qed

lemma series_loop_succeeds:
  assumes "\<forall>s \<in> set raw. \<forall>it \<in> set (data s). \<exists>ps. process_item g f (seriesID s) it = Inr ps"
  shows "\<exists>pts. series_loop g f raw acc = Inr pts"
  using assms
proof (induction raw arbitrary: acc)
  case Nil
  show ?case by simp
next
  case (Cons a raw)
  then obtain mid where "items_loop g f (seriesID a) (data a) acc = Inr mid"
    using items_loop_succeeds [where its = "data a" and g = g and f = f and sid = "seriesID a" and acc = acc]
    by auto
  then show ?case using Cons by simp
qed

subsection \<open>Date conversion and the pivot\<close>

lemma to_datetime_column_error: "to_datetime_column other pts = Inl e \<Longrightarrow> e = ValueError"
  by (auto simp: to_datetime_column_def split: if_splits option.splits)

lemma to_datetime_column_rows:
  assumes "to_datetime_column other pts = Inr rows"
  shows "\<exists>rd. rows = set_dates rd pts"
  using assms by (auto simp: to_datetime_column_def split: if_splits option.splits)

lemma to_datetime_column_plain:
  assumes "\<forall>p \<in> set pts. plain_date (date p) \<and> snd (date p) \<le> 12"
  shows "to_datetime_column other pts = Inr (set_dates (\<lambda>ym. first_of_month (fst ym) (snd ym)) pts)"
  using assms by (simp add: to_datetime_column_def list_all_iff)

lemma to_datetime_column_refuses:
  assumes "\<forall>p \<in> set pts. plain_date (date p)" and "p \<in> set pts" and "12 < snd (date p)"
  shows "to_datetime_column other pts = Inl ValueError"
proof -
  have "\<not> snd (date p) \<le> 12" using assms(3) by simp
  then have "\<not> list_all (\<lambda>p. snd (date p) \<le> 12) pts"
    using assms(2) unfolding list_all_iff by blast
  then show ?thesis using assms(1) by (simp add: to_datetime_column_def list_all_iff)
qed

lemma duplicate_keys_survive:
  assumes "\<not> distinct (map (\<lambda>p. (date p, series_id p)) pts)"
  shows "\<not> distinct (map (\<lambda>r. (date r, series_id r)) (set_dates rd pts))"
proof
  assume "distinct (map (\<lambda>r. (date r, series_id r)) (set_dates rd pts))"
  then have "distinct (map ((\<lambda>k. (rd (fst k), snd k)) \<circ> (\<lambda>p. (date p, series_id p))) pts)"
    by (simp add: set_dates_def comp_def)
  then have "inj_on ((\<lambda>k. (rd (fst k), snd k)) \<circ> (\<lambda>p. (date p, series_id p))) (set pts)"
    and "distinct pts"
    by (simp_all add: distinct_map)
  then have "inj_on (\<lambda>p. (date p, series_id p)) (set pts)" and "distinct pts"
    by (blast intro: inj_on_imageI2)+
  then have "distinct (map (\<lambda>p. (date p, series_id p)) pts)"
    by (simp add: distinct_map)
  then show False using assms by simp
qed

lemma pivot_shape:
  assumes "distinct (map (\<lambda>r. (date r, series_id r)) rows)"
  shows "\<exists>df. pivot rows = Inr df \<and>
           index df = sort (remdups (map date rows)) \<and>
           map fst (columns df) = sort (remdups (map series_id rows)) \<and>
           length (index df) = card (date ` set rows) \<and>
           length (columns df) = card (series_id ` set rows) \<and>
           (\<forall>col \<in> set (columns df). length (snd col) = length (index df))"
proof -
  have a: "length (sort (remdups (map date rows))) = card (date ` set rows)"
    by (simp add: length_remdups_card_conv)
  have b: "length (sort (remdups (map series_id rows))) = card (series_id ` set rows)"
    by (simp add: length_remdups_card_conv)
  show ?thesis using assms a b
    by (simp add: pivot_def Let_def comp_def)
qed

lemma last_sorted_Max:
  fixes xs :: "'a::linorder list"
  shows "sorted xs \<Longrightarrow> xs \<noteq> [] \<Longrightarrow> last xs = Max (set xs)"
proof (induction xs)
  case Nil
  then show ?case by simp
next
  case (Cons x xs)
  show ?case
  proof (cases "xs = []")
    case True
    then show ?thesis by simp
  next
    case False
    with Cons have "last xs = Max (set xs)" by simp
    moreover have "x \<le> Max (set xs)" using Cons.prems False
      by (metis List.finite_set Max_ge_iff last_in_set set_empty sorted_simps(2) calculation)
    ultimately show ?thesis using False by (simp add: max_def)
  qed
qed

lemma normalize_table:
  assumes "series_loop int_of float_of raw [] = Inr pts" and "pts \<noteq> []"
    and "to_datetime_column other pts = Inr rows"
    and "distinct (map (\<lambda>r. (date r, series_id r)) rows)"
  shows "\<exists>df. process_bls_data int_of float_of other raw = Inr df \<and>
           index df = sort (remdups (map date rows)) \<and>
           map fst (columns df) = sort (remdups (map series_id rows)) \<and>
           length (index df) = card (date ` set rows) \<and>
           length (columns df) = card (series_id ` set rows) \<and>
           (\<forall>col \<in> set (columns df). length (snd col) = length (index df))"
proof -
  have "process_bls_data int_of float_of other raw = pivot rows"
    using assms(1,2,3) by (simp add: process_bls_data_def)
  then show ?thesis using pivot_shape [OF assms(4)] by simp
qed

subsection \<open>Running the model\<close>

lemmas rd_defs = round_double_def ilog2_def pow2_def round_half_even_def Let_def compute_bitlen

lemmas run_defs = process_item_def startswith_def slice_from1_def float_plain_def int_plain_def
  is_digit_def digit_val_def

lemma first_of_month_values:
  "first_of_month 2023 1 = 1672531200000000000"
  "first_of_month 2023 2 = 1675209600000000000"
  by (simp_all add: first_of_month_def days_from_civil_def ns_per_day_def)

lemma float_plain_values:
  "float_plain ''3.5'' = Some (Fin (7 / 2))"
  "float_plain ''3.75'' = Some (Fin (15 / 4))"
  "float_plain ''6.5'' = Some (Fin (13 / 2))"
  "float_plain ''6.25'' = Some (Fin (25 / 4))"
  "float_plain ''-'' = None"
  by (simp_all add: float_plain_def is_digit_def digit_val_def rd_defs)

lemma int_plain_values:
  "int_plain ''2023'' = Some 2023"
  "int_plain ''01'' = Some 1"
  "int_plain ''02'' = Some 2"
  "int_plain ''13'' = Some 13"
  by (simp_all add: int_plain_def is_digit_def digit_val_def)

lemmas item_defs = process_item_def startswith_def slice_from1_def float_plain_values
  int_plain_values

subsection \<open>Claims about the normalizer\<close>

text \<open>
  Claim C1 says that an observation whose period code is not \<open>M\<close> followed by a
  month 01 to 12, such as \<open>M13\<close>, is skipped and never reaches the table. The loop
  tests \<open>period.startswith("M")\<close> only: the code \<open>M13\<close> is taken as month 13,
  the date text becomes \<open>2023-13-01\<close>, and the conversion of the date column raises
  \<open>ValueError\<close>, so no table is returned. The same payload without that observation
  gives a table with one row. (What the conversion does on date texts of another shape
  plays no part: the statement holds for every \<open>other\<close>.)
\<close>

theorem C1_M13_raises:
  "process_bls_data int_plain float_plain other
       [\<lparr>seriesID = ''A'', data =
          [\<lparr>year = JStr ''2023'', period = ''M01'', val = ''3.5''\<rparr>,
           \<lparr>year = JStr ''2023'', period = ''M13'', val = ''3.75''\<rparr>]\<rparr>] = Inl ValueError
   \<and> process_bls_data int_plain float_plain other
       [\<lparr>seriesID = ''A'', data =
          [\<lparr>year = JStr ''2023'', period = ''M01'', val = ''3.5''\<rparr>]\<rparr>]
     = Inr \<lparr>index = [1672531200000000000], columns = [(''A'', [Fin (7 / 2)])]\<rparr>"
proof -
  have a: "series_loop int_plain float_plain
       [\<lparr>seriesID = ''A'', data =
          [\<lparr>year = JStr ''2023'', period = ''M01'', val = ''3.5''\<rparr>,
           \<lparr>year = JStr ''2023'', period = ''M13'', val = ''3.75''\<rparr>]\<rparr>] []
     = Inr [\<lparr>series_id = ''A'', date = (2023, 1), pvalue = Fin (7 / 2)\<rparr>,
            \<lparr>series_id = ''A'', date = (2023, 13), pvalue = Fin (15 / 4)\<rparr>]"
    by (simp add: item_defs)
  have b: "series_loop int_plain float_plain
       [\<lparr>seriesID = ''A'', data =
          [\<lparr>year = JStr ''2023'', period = ''M01'', val = ''3.5''\<rparr>]\<rparr>] []
     = Inr [\<lparr>series_id = ''A'', date = (2023, 1), pvalue = Fin (7 / 2)\<rparr>]"
    by (simp add: item_defs)
  show ?thesis
    unfolding process_bls_data_def a b
    by (simp add: to_datetime_column_def plain_date_def set_dates_def first_of_month_values
          pivot_def cell_def)
qed

text \<open>
  Claim C2 says that a payload whose series list is empty normalizes to an empty table.
  The script fails instead: the loop leaves \<open>data_points\<close> empty, the DataFrame built
  from it has no \<open>date\<close> column, and the subscript raises \<open>KeyError\<close>. This holds
  whatever \<open>int()\<close>, \<open>float()\<close> and \<open>pd.to_datetime\<close> do.
\<close>

theorem C2_empty_series_raises:
  "process_bls_data int_of float_of other [] = Inl KeyError"
  by (simp add: process_bls_data_def)

text \<open>
  Claim C8: when an observation with a monthly period code carries a value text that
  \<open>float()\<close> rejects, normalization fails with \<open>ValueError\<close> and returns no table,
  whatever was parsed before it. The statement covers every observation whose period
  starts with \<open>M\<close>, at any position of the payload, and every behaviour of
  \<open>int()\<close> and of the date conversion.
\<close>

theorem C8_bad_value_aborts:
  assumes "s \<in> set raw" and "it \<in> set (data s)"
    and "startswith (period it) ''M''" and "float_of (val it) = None"
  shows "process_bls_data int_of float_of other raw = Inl ValueError"
proof -
  have "process_item int_of float_of (seriesID s) it = Inl ValueError"
    using assms(3,4) by (simp add: process_item_def split: option.splits)
  then have "series_loop int_of float_of raw [] = Inl ValueError"
    using series_loop_fails assms(1,2) by blast
  then show ?thesis by (simp add: process_bls_data_def)
qed

theorem C8_bad_value_aborts_witness:
  "\<lparr>seriesID = ''A'', data =
       [\<lparr>year = JStr ''2023'', period = ''M01'', val = ''3.5''\<rparr>,
        \<lparr>year = JStr ''2023'', period = ''M02'', val = ''-''\<rparr>]\<rparr>
     \<in> set [\<lparr>seriesID = ''A'', data =
       [\<lparr>year = JStr ''2023'', period = ''M01'', val = ''3.5''\<rparr>,
        \<lparr>year = JStr ''2023'', period = ''M02'', val = ''-''\<rparr>]\<rparr>]
   \<and> startswith ''M02'' ''M'' \<and> float_plain ''-'' = None
   \<and> process_bls_data int_plain float_plain (\<lambda>column. None)
       [\<lparr>seriesID = ''A'', data =
          [\<lparr>year = JStr ''2023'', period = ''M01'', val = ''3.5''\<rparr>,
           \<lparr>year = JStr ''2023'', period = ''M02'', val = ''-''\<rparr>]\<rparr>] = Inl ValueError"
  using C8_bad_value_aborts
    [where s = "\<lparr>seriesID = ''A'', data =
          [\<lparr>year = JStr ''2023'', period = ''M01'', val = ''3.5''\<rparr>,
           \<lparr>year = JStr ''2023'', period = ''M02'', val = ''-''\<rparr>]\<rparr>"
       and raw = "[\<lparr>seriesID = ''A'', data =
          [\<lparr>year = JStr ''2023'', period = ''M01'', val = ''3.5''\<rparr>,
           \<lparr>year = JStr ''2023'', period = ''M02'', val = ''-''\<rparr>]\<rparr>]"
       and it = "\<lparr>year = JStr ''2023'', period = ''M02'', val = ''-''\<rparr>"
       and float_of = float_plain and int_of = int_plain and other = "\<lambda>column. None"]
  by (simp add: startswith_def float_plain_values)

text \<open>
  Claim C9: when the loop has accepted two observations with the same date and the same
  series id, the pivot refuses the duplicate and normalization fails with \<open>ValueError\<close>;
  no table is returned, so neither occurrence overwrites the other. (When the loop itself
  fails there is no table either.)
\<close>

theorem C9_duplicate_pair_aborts:
  assumes "series_loop int_of float_of raw [] = Inr pts"
    and "\<not> distinct (map (\<lambda>p. (date p, series_id p)) pts)"
  shows "process_bls_data int_of float_of other raw = Inl ValueError"
proof -
  have ne: "pts \<noteq> []" using assms(2) by auto
  show ?thesis
  proof (cases "to_datetime_column other pts")
    case (Inl e)
    then show ?thesis
      using assms(1) ne to_datetime_column_error [OF Inl] by (simp add: process_bls_data_def)
  next
    case (Inr rows)
    from to_datetime_column_rows [OF Inr] obtain rd where rows: "rows = set_dates rd pts"
      by blast
    have "\<not> distinct (map (\<lambda>r. (date r, series_id r)) rows)"
      unfolding rows using assms(2) by (rule duplicate_keys_survive)
    then have "pivot rows = Inl ValueError" by (simp add: pivot_def)
    then show ?thesis using assms(1) ne Inr by (simp add: process_bls_data_def)
  qed
qed

theorem C9_duplicate_pair_aborts_witness:
  "series_loop int_plain float_plain
       [\<lparr>seriesID = ''A'', data =
          [\<lparr>year = JStr ''2023'', period = ''M01'', val = ''3.5''\<rparr>,
           \<lparr>year = JStr ''2023'', period = ''M01'', val = ''3.75''\<rparr>]\<rparr>] []
     = Inr [\<lparr>series_id = ''A'', date = (2023, 1), pvalue = Fin (7 / 2)\<rparr>,
            \<lparr>series_id = ''A'', date = (2023, 1), pvalue = Fin (15 / 4)\<rparr>]
   \<and> \<not> distinct (map (\<lambda>p. (date p, series_id p))
            [\<lparr>series_id = ''A'', date = (2023 :: int, 1 :: int), pvalue = Fin (7 / 2)\<rparr>,
             \<lparr>series_id = ''A'', date = (2023, 1), pvalue = Fin (15 / 4)\<rparr>])
   \<and> process_bls_data int_plain float_plain (\<lambda>column. None)
       [\<lparr>seriesID = ''A'', data =
          [\<lparr>year = JStr ''2023'', period = ''M01'', val = ''3.5''\<rparr>,
           \<lparr>year = JStr ''2023'', period = ''M01'', val = ''3.75''\<rparr>]\<rparr>] = Inl ValueError"
proof -
  have run: "series_loop int_plain float_plain
       [\<lparr>seriesID = ''A'', data =
          [\<lparr>year = JStr ''2023'', period = ''M01'', val = ''3.5''\<rparr>,
           \<lparr>year = JStr ''2023'', period = ''M01'', val = ''3.75''\<rparr>]\<rparr>] []
     = Inr [\<lparr>series_id = ''A'', date = (2023, 1), pvalue = Fin (7 / 2)\<rparr>,
            \<lparr>series_id = ''A'', date = (2023, 1), pvalue = Fin (15 / 4)\<rparr>]"
    by (simp add: item_defs)
  have dup: "\<not> distinct (map (\<lambda>p. (date p, series_id p))
            [\<lparr>series_id = ''A'', date = (2023 :: int, 1 :: int), pvalue = Fin (7 / 2)\<rparr>,
             \<lparr>series_id = ''A'', date = (2023, 1), pvalue = Fin (15 / 4)\<rparr>])"
    by simp
  show ?thesis
    using run dup C9_duplicate_pair_aborts [OF run dup, where other = "\<lambda>column. None"] by simp
qed

text \<open>
  Claim C4, as amended. Take a payload on which the loop completes, with at least one
  observation whose period starts with \<open>M\<close>, every accepted observation dated in a
  month 1 to 12 of a year from 1678 to 2261, and no two accepted observations with the
  same date and series id. Then normalization returns a table; its rows are the distinct
  first-of-month dates of the observations of the payload whose period starts with
  \<open>M\<close>, and its columns are the ids of the series of the payload that hold such an
  observation. A series without one has no column.
\<close>

theorem C4_table_shape:
  assumes "series_loop int_of float_of raw [] = Inr pts"
    and "\<exists>s \<in> set raw. \<exists>it \<in> set (data s). startswith (period it) ''M''"
    and "\<forall>p \<in> set pts. plain_date (date p) \<and> snd (date p) \<le> 12"
    and "distinct (map (\<lambda>p. (first_of_month (fst (date p)) (snd (date p)), series_id p)) pts)"
  shows "\<exists>df. process_bls_data int_of float_of other raw = Inr df \<and>
           set (index df) =
             {first_of_month y m | y m. \<exists>s \<in> set raw. \<exists>it \<in> set (data s).
                startswith (period it) ''M'' \<and> int_of_year int_of (year it) = Some y \<and>
                int_of (slice_from1 (period it)) = Some m} \<and>
           length (index df) =
             card {first_of_month y m | y m. \<exists>s \<in> set raw. \<exists>it \<in> set (data s).
                startswith (period it) ''M'' \<and> int_of_year int_of (year it) = Some y \<and>
                int_of (slice_from1 (period it)) = Some m} \<and>
           set (map fst (columns df)) =
             {seriesID s | s. s \<in> set raw \<and> (\<exists>it \<in> set (data s). startswith (period it) ''M'')} \<and>
           length (columns df) =
             card {seriesID s | s. s \<in> set raw \<and> (\<exists>it \<in> set (data s). startswith (period it) ''M'')}"
proof -
  let ?fom = "\<lambda>ym :: int \<times> int. first_of_month (fst ym) (snd ym)"
  let ?rows = "set_dates ?fom pts"
  let ?D = "{first_of_month y m | y m. \<exists>s \<in> set raw. \<exists>it \<in> set (data s).
                startswith (period it) ''M'' \<and> int_of_year int_of (year it) = Some y \<and>
                int_of (slice_from1 (period it)) = Some m}"
  let ?C = "{seriesID s | s. s \<in> set raw \<and> (\<exists>it \<in> set (data s). startswith (period it) ''M'')}"
  have ids: "series_id ` set pts = ?C" by (rule series_loop_series_ids [OF assms(1)])
  have "?C \<noteq> {}" using assms(2) by blast
  then have ne: "pts \<noteq> []" using ids by auto
  have conv: "to_datetime_column other pts = Inr ?rows"
    by (rule to_datetime_column_plain [OF assms(3)])
  have keys: "map (\<lambda>r. (date r, series_id r)) ?rows =
              map (\<lambda>p. (first_of_month (fst (date p)) (snd (date p)), series_id p)) pts"
    by (simp add: set_dates_def comp_def)
  have dist: "distinct (map (\<lambda>r. (date r, series_id r)) ?rows)"
    unfolding keys by (rule assms(4))
  from normalize_table [OF assms(1) ne conv dist] obtain df where
    df: "process_bls_data int_of float_of other raw = Inr df" and
    idx: "index df = sort (remdups (map date ?rows))" and
    cols: "map fst (columns df) = sort (remdups (map series_id ?rows))" and
    n: "length (index df) = card (date ` set ?rows)" and
    k: "length (columns df) = card (series_id ` set ?rows)"
    by blast
  have rid: "series_id ` set ?rows = ?C"
    using ids by (simp add: set_dates_def image_image)
  have "date ` set ?rows = (\<lambda>p. ?fom (date p)) ` set pts"
    by (simp add: set_dates_def image_image)
  also have "\<dots> = ?D"
  proof (intro set_eqI iffI)
    fix t assume "t \<in> (\<lambda>p. ?fom (date p)) ` set pts"
    then show "t \<in> ?D" unfolding series_loop_points [OF assms(1)] by force
  next
    fix t assume "t \<in> ?D"
    then obtain y m s it where s: "s \<in> set raw" and it: "it \<in> set (data s)"
      and sw: "startswith (period it) ''M''" and y: "int_of_year int_of (year it) = Some y"
      and m: "int_of (slice_from1 (period it)) = Some m" and t: "t = first_of_month y m"
      by blast
    from series_loop_all_read [OF assms(1) s it] obtain ps where
      "process_item int_of float_of (seriesID s) it = Inr ps" by blast
    then obtain v where "float_of (val it) = Some v"
      using sw y m by (auto simp: process_item_def split: option.splits)
    then have "\<lparr>series_id = seriesID s, date = (y, m), pvalue = v\<rparr> \<in> set pts"
      unfolding series_loop_points [OF assms(1)] using s it sw y m by blast
    then show "t \<in> (\<lambda>p. ?fom (date p)) ` set pts" using t by force
  qed
  finally have rd: "date ` set ?rows = ?D" .
  have a: "set (index df) = ?D" unfolding idx using rd by simp
  have b: "set (map fst (columns df)) = ?C" unfolding cols using rid by simp
  show ?thesis using df a b n k rd rid by auto
qed

text \<open>
  Claim C10: when the loop completes with at least one data point, every date converts,
  and no (date, series id) pair repeats, normalization returns a table whose index is
  strictly ascending. The index is the sorted list of the set of dates, so it does not
  depend on the order of the observations, and its last entry is the latest date.
\<close>

theorem C10_index_sorted:
  assumes "series_loop int_of float_of raw [] = Inr pts" and "pts \<noteq> []"
    and "to_datetime_column other pts = Inr rows"
    and "distinct (map (\<lambda>r. (date r, series_id r)) rows)"
  shows "\<exists>df. process_bls_data int_of float_of other raw = Inr df \<and>
           sorted_wrt (<) (index df) \<and>
           index df = sorted_list_of_set (date ` set rows) \<and>
           index df \<noteq> [] \<and>
           last (index df) = Max (date ` set rows)"
proof -
  from normalize_table [OF assms] obtain df where
    df: "process_bls_data int_of float_of other raw = Inr df" and
    idx: "index df = sort (remdups (map date rows))" by blast
  from to_datetime_column_rows [OF assms(3)] obtain rd where "rows = set_dates rd pts" by blast
  then have "length rows = length pts" by (simp add: set_dates_def)
  then have ne: "rows \<noteq> []" using assms(2) by auto
  have a: "sorted_wrt (<) (index df)"
    unfolding idx by (simp add: strict_sorted_iff)
  have b: "index df = sorted_list_of_set (date ` set rows)"
    unfolding idx using sorted_list_of_set_sort_remdups [of "map date rows"] by simp
  have s: "set (index df) = date ` set rows" unfolding idx by simp
  have c: "index df \<noteq> []"
  proof
    assume "index df = []"
    then have "date ` set rows = {}" using s by simp
    then show False using ne by simp
  qed
  have "sorted (index df)" unfolding idx by simp
  then have d: "last (index df) = Max (set (index df))" using c by (rule last_sorted_Max)
  show ?thesis using df a b c d s by auto
qed


theorem C4_table_shape_witness:
  "process_bls_data int_plain float_plain (\<lambda>column. None)
       [\<lparr>seriesID = ''B'', data =
          [\<lparr>year = JStr ''2023'', period = ''M02'', val = ''6.5''\<rparr>,
           \<lparr>year = JStr ''2023'', period = ''A01'', val = ''6.25''\<rparr>]\<rparr>,
        \<lparr>seriesID = ''A'', data =
          [\<lparr>year = JStr ''2023'', period = ''M02'', val = ''3.75''\<rparr>,
           \<lparr>year = JInt 2023, period = ''M01'', val = ''3.5''\<rparr>]\<rparr>]
     = Inr \<lparr>index = [1672531200000000000, 1675209600000000000],
             columns = [(''A'', [Fin (7 / 2), Fin (15 / 4)]), (''B'', [NaN, Fin (13 / 2)])]\<rparr>
   \<and> (\<exists>df. process_bls_data int_plain float_plain (\<lambda>column. None)
       [\<lparr>seriesID = ''B'', data =
          [\<lparr>year = JStr ''2023'', period = ''M02'', val = ''6.5''\<rparr>,
           \<lparr>year = JStr ''2023'', period = ''A01'', val = ''6.25''\<rparr>]\<rparr>,
        \<lparr>seriesID = ''A'', data =
          [\<lparr>year = JStr ''2023'', period = ''M02'', val = ''3.75''\<rparr>,
           \<lparr>year = JInt 2023, period = ''M01'', val = ''3.5''\<rparr>]\<rparr>] = Inr df
        \<and> set (index df) = {1672531200000000000, 1675209600000000000}
        \<and> length (index df) = 2
        \<and> set (map fst (columns df)) = {''A'', ''B''}
        \<and> length (columns df) = 2)"
proof -
  let ?raw = "[\<lparr>seriesID = ''B'', data =
          [\<lparr>year = JStr ''2023'', period = ''M02'', val = ''6.5''\<rparr>,
           \<lparr>year = JStr ''2023'', period = ''A01'', val = ''6.25''\<rparr>]\<rparr>,
        \<lparr>seriesID = ''A'', data =
          [\<lparr>year = JStr ''2023'', period = ''M02'', val = ''3.75''\<rparr>,
           \<lparr>year = JInt 2023, period = ''M01'', val = ''3.5''\<rparr>]\<rparr>]"
  let ?pts = "[\<lparr>series_id = ''B'', date = (2023 :: int, 2 :: int), pvalue = Fin (13 / 2)\<rparr>,
            \<lparr>series_id = ''A'', date = (2023, 2), pvalue = Fin (15 / 4)\<rparr>,
            \<lparr>series_id = ''A'', date = (2023, 1), pvalue = Fin (7 / 2)\<rparr>]"
  have a: "series_loop int_plain float_plain ?raw [] = Inr ?pts"
    by (simp add: item_defs)
  have b: "\<exists>s \<in> set ?raw. \<exists>it \<in> set (data s). startswith (period it) ''M''"
    by (simp add: startswith_def)
  have c: "\<forall>p \<in> set ?pts. plain_date (date p) \<and> snd (date p) \<le> 12"
    by (simp add: plain_date_def)
  have d: "distinct (map (\<lambda>p. (first_of_month (fst (date p)) (snd (date p)), series_id p)) ?pts)"
    by (simp add: first_of_month_values)
  have e: "process_bls_data int_plain float_plain (\<lambda>column. None) ?raw
     = Inr \<lparr>index = [1672531200000000000, 1675209600000000000],
             columns = [(''A'', [Fin (7 / 2), Fin (15 / 4)]), (''B'', [NaN, Fin (13 / 2)])]\<rparr>"
    unfolding process_bls_data_def a
    by (simp add: to_datetime_column_def plain_date_def set_dates_def first_of_month_values
          pivot_def cell_def)
  from C4_table_shape [OF a b c d, where other = "\<lambda>column. None"]
  show ?thesis
  proof (elim exE conjE)
    fix df
    assume df: "process_bls_data int_plain float_plain (\<lambda>column. None) ?raw = Inr df"
    have tbl: "df = \<lparr>index = [1672531200000000000, 1675209600000000000],
             columns = [(''A'', [Fin (7 / 2), Fin (15 / 4)]), (''B'', [NaN, Fin (13 / 2)])]\<rparr>"
      using df e by simp
    have p1: "set (index df) = {1672531200000000000, 1675209600000000000}"
      unfolding tbl by simp
    have p2: "length (index df) = 2" unfolding tbl by simp
    have p3: "set (map fst (columns df)) = {''A'', ''B''}" unfolding tbl by simp
    have p4: "length (columns df) = 2" unfolding tbl by simp
    show ?thesis
      by (rule conjI [OF e], rule exI [of _ df], intro conjI df p1 p2 p3 p4)
  qed
qed

theorem C4_columns_counterexample:
  "process_bls_data int_plain float_plain (\<lambda>column. None)
       [\<lparr>seriesID = ''A'', data =
          [\<lparr>year = JStr ''2023'', period = ''M01'', val = ''3.5''\<rparr>]\<rparr>,
        \<lparr>seriesID = ''B'', data = []\<rparr>]
     = Inr \<lparr>index = [1672531200000000000], columns = [(''A'', [Fin (7 / 2)])]\<rparr>
   \<and> process_bls_data int_plain float_plain (\<lambda>column. None)
       [\<lparr>seriesID = ''A'', data = []\<rparr>] = Inl KeyError"
proof -
  have a: "series_loop int_plain float_plain
       [\<lparr>seriesID = ''A'', data =
          [\<lparr>year = JStr ''2023'', period = ''M01'', val = ''3.5''\<rparr>]\<rparr>,
        \<lparr>seriesID = ''B'', data = []\<rparr>] []
     = Inr [\<lparr>series_id = ''A'', date = (2023, 1), pvalue = Fin (7 / 2)\<rparr>]"
    by (simp add: item_defs)
  have b: "series_loop int_plain float_plain [\<lparr>seriesID = ''A'', data = []\<rparr>] [] = Inr []"
    by simp
  show ?thesis
    unfolding process_bls_data_def a b
    by (simp add: to_datetime_column_def plain_date_def set_dates_def first_of_month_values
          pivot_def cell_def)
qed

theorem C10_index_sorted_witness:
  "process_bls_data int_plain float_plain (\<lambda>column. None)
       [\<lparr>seriesID = ''A'', data =
          [\<lparr>year = JStr ''2023'', period = ''M02'', val = ''3.75''\<rparr>,
           \<lparr>year = JStr ''2023'', period = ''M01'', val = ''3.5''\<rparr>]\<rparr>]
     = Inr \<lparr>index = [1672531200000000000, 1675209600000000000],
             columns = [(''A'', [Fin (7 / 2), Fin (15 / 4)])]\<rparr>
   \<and> (\<exists>df. process_bls_data int_plain float_plain (\<lambda>column. None)
       [\<lparr>seriesID = ''A'', data =
          [\<lparr>year = JStr ''2023'', period = ''M02'', val = ''3.75''\<rparr>,
           \<lparr>year = JStr ''2023'', period = ''M01'', val = ''3.5''\<rparr>]\<rparr>] = Inr df
        \<and> sorted_wrt (<) (index df) \<and> last (index df) = 1675209600000000000)"
proof -
  let ?raw = "[\<lparr>seriesID = ''A'', data =
          [\<lparr>year = JStr ''2023'', period = ''M02'', val = ''3.75''\<rparr>,
           \<lparr>year = JStr ''2023'', period = ''M01'', val = ''3.5''\<rparr>]\<rparr>]"
  let ?pts = "[\<lparr>series_id = ''A'', date = (2023 :: int, 2 :: int), pvalue = Fin (15 / 4)\<rparr>,
            \<lparr>series_id = ''A'', date = (2023, 1), pvalue = Fin (7 / 2)\<rparr>]"
  let ?rows = "[\<lparr>series_id = ''A'', date = 1675209600000000000 :: int, pvalue = Fin (15 / 4)\<rparr>,
            \<lparr>series_id = ''A'', date = 1672531200000000000, pvalue = Fin (7 / 2)\<rparr>]"
  have a: "series_loop int_plain float_plain ?raw [] = Inr ?pts"
    by (simp add: item_defs)
  have b: "?pts \<noteq> []" by simp
  have c: "to_datetime_column (\<lambda>column. None) ?pts = Inr ?rows"
    by (simp add: to_datetime_column_def plain_date_def set_dates_def first_of_month_values)
  have d: "distinct (map (\<lambda>r. (date r, series_id r)) ?rows)" by simp
  have e: "process_bls_data int_plain float_plain (\<lambda>column. None) ?raw
     = Inr \<lparr>index = [1672531200000000000, 1675209600000000000],
             columns = [(''A'', [Fin (7 / 2), Fin (15 / 4)])]\<rparr>"
    unfolding process_bls_data_def a
    by (simp add: to_datetime_column_def plain_date_def set_dates_def first_of_month_values
          pivot_def cell_def)
  show ?thesis using C10_index_sorted [OF a b c d] e by simp
qed

section \<open>Properties of the double arithmetic\<close>

lemma pow2_powi: "pow2 e = 2 powi e"
  by (simp add: pow2_def power_int_def inverse_eq_divide power_one_over)

lemma ilog2_bounds:
  assumes "0 < x"
  shows "2 powi (ilog2 x) \<le> x \<and> x < 2 powi (ilog2 x + 1)"
proof (cases "1 \<le> x")
  case True
  let ?a = "\<lfloor>x\<rfloor>"
  have a: "0 < ?a" using True by linarith
  from bitlen_bounds [OF a] have lo: "2 ^ nat (bitlen ?a - 1) \<le> ?a" and hi: "?a < 2 ^ nat (bitlen ?a)"
    by auto
  have b1: "1 \<le> bitlen ?a" using a by (auto simp: bitlen_alt_def)
  have e: "ilog2 x = bitlen ?a - 1" using True by (simp add: ilog2_def)
  have "(2::real) ^ nat (bitlen ?a - 1) \<le> of_int ?a"
    using lo by (metis of_int_le_iff of_int_numeral of_int_power)
  then have "(2::real) ^ nat (bitlen ?a - 1) \<le> x"
    using of_int_floor_le [of x] by linarith
  then have l: "2 powi (ilog2 x) \<le> x"
    unfolding e using b1 by (simp add: power_int_def)
  have "?a + 1 \<le> 2 ^ nat (bitlen ?a)" using hi by linarith
  then have "of_int (?a + 1) \<le> (2::real) ^ nat (bitlen ?a)"
    by (metis of_int_le_iff of_int_numeral of_int_power)
  then have "x < (2::real) ^ nat (bitlen ?a)" by linarith
  then have h: "x < 2 powi (ilog2 x + 1)"
    unfolding e using b1 by (simp add: power_int_def)
  show ?thesis using l h by simp
next
  case False
  then have x1: "x < 1" by simp
  let ?c = "\<lfloor>1 / x\<rfloor>"
  have inv: "1 < 1 / x" using assms x1 by simp
  have c: "0 < ?c" using inv by linarith
  from bitlen_bounds [OF c] have lo: "2 ^ nat (bitlen ?c - 1) \<le> ?c" and hi: "?c < 2 ^ nat (bitlen ?c)"
    by auto
  have b1: "1 \<le> bitlen ?c" using c by (auto simp: bitlen_alt_def)
  define k where "k = bitlen ?c - 1"
  have k0: "0 \<le> k" using b1 by (simp add: k_def)
  have lo': "(2::real) ^ nat k \<le> 1 / x"
  proof -
    have "(2::real) ^ nat k \<le> of_int ?c"
      using lo unfolding k_def by (metis of_int_le_iff of_int_numeral of_int_power)
    then show ?thesis by linarith
  qed
  have hi': "1 / x < (2::real) ^ nat (k + 1)"
  proof -
    have "nat (bitlen ?c) = nat (k + 1)" by (simp add: k_def)
    then have "?c + 1 \<le> 2 ^ nat (k + 1)" using hi by simp
    then have "of_int (?c + 1) \<le> (2::real) ^ nat (k + 1)"
      by (metis of_int_le_iff of_int_numeral of_int_power)
    then show ?thesis by linarith
  qed
  have up: "x \<le> 1 / 2 ^ nat k"
  proof -
    have "x * 2 ^ nat k \<le> 1" using lo' assms by (simp add: field_simps)
    then show ?thesis by (simp add: field_simps)
  qed
  have dn: "1 / 2 ^ nat (k + 1) < x"
  proof -
    have "1 < x * 2 ^ nat (k + 1)" using hi' assms by (simp add: field_simps)
    then show ?thesis by (simp add: field_simps)
  qed
  have pk: "(2::real) powi (- k) = 1 / 2 ^ nat k"
    using k0 by (simp add: power_int_def inverse_eq_divide power_one_over)
  have pk1: "(2::real) powi (- k - 1) = 1 / 2 ^ nat (k + 1)"
    using k0 by (simp add: power_int_def inverse_eq_divide power_one_over nat_add_distrib)
  have dbl: "(2::real) powi (- k) = 2 * 2 powi (- k - 1)"
    unfolding pk pk1 using k0 by (simp add: nat_add_distrib)
  show ?thesis
  proof (cases "x * 2 ^ nat k = 1")
    case True
    then have e: "ilog2 x = - k" using x1 by (simp add: ilog2_def k_def Let_def)
    have xe: "x = 1 / 2 ^ nat k" using True by (simp add: field_simps)
    have "2 powi (ilog2 x) \<le> x" unfolding e pk using xe by simp
    moreover have "x < 2 powi (ilog2 x + 1)"
    proof -
      have "(2::real) powi (- k + 1) = 2 powi (- k) * 2 powi 1"
        by (rule power_int_add) simp
      then have "(2::real) powi (- k + 1) = 2 * 2 powi (- k)"
        by simp
      then have "(2::real) powi (- k + 1) = 2 * x" using xe pk by simp
      then show ?thesis unfolding e using assms by simp
    qed
    ultimately show ?thesis by simp
  next
    case ne: False
    then have e: "ilog2 x = - k - 1" using x1 by (simp add: ilog2_def k_def Let_def)
    have "x \<noteq> 1 / 2 ^ nat k" using ne by (auto simp: field_simps)
    then have "x < 1 / 2 ^ nat k" using up by simp
    then have "x < 2 powi (ilog2 x + 1)" unfolding e using pk by simp
    moreover have "2 powi (ilog2 x) \<le> x" unfolding e pk1 using dn by simp
    ultimately show ?thesis by simp
  qed
qed

lemma round_half_even_error: "\<bar>of_int (round_half_even y) - y\<bar> \<le> 1 / 2"
  unfolding round_half_even_def Let_def by (auto; linarith)

lemma round_half_even_tie:
  "\<bar>of_int (round_half_even y) - y\<bar> = 1 / 2 \<Longrightarrow> even (round_half_even y)"
  unfolding round_half_even_def Let_def by (auto split: if_splits; linarith)

lemma round_half_even_nonneg: "0 \<le> y \<Longrightarrow> 0 \<le> round_half_even y"
  unfolding round_half_even_def Let_def by (auto; linarith)


lemma round_double_Fin:
  assumes "round_double x = Fin r" and "x \<noteq> 0"
  shows "r = of_int (round_half_even (x / (2 powi (max (ilog2 \<bar>x\<bar>) (- 1022) - 52))))
             * 2 powi (max (ilog2 \<bar>x\<bar>) (- 1022) - 52)"
  using assms unfolding round_double_def Let_def pow2_powi
  by (simp split: if_splits)

lemma round_double_error:
  assumes "round_double x = Fin r"
  shows "\<bar>r - x\<bar> \<le> \<bar>x\<bar> / 2 ^ 53 + 2 powi (- 1075)"
proof (cases "x = 0")
  case True
  then show ?thesis using assms by (simp add: round_double_def)
next
  case False
  define e where "e = max (ilog2 \<bar>x\<bar>) (- 1022)"
  define u :: real where "u = 2 powi (e - 52)"
  define n where "n = round_half_even (x / u)"
  have r: "r = of_int n * u"
    using round_double_Fin [OF assms False] by (simp add: e_def u_def n_def)
  have u0: "0 < u" by (simp add: u_def)
  have "\<bar>of_int n - x / u\<bar> \<le> 1 / 2" unfolding n_def by (rule round_half_even_error)
  then have "\<bar>of_int n - x / u\<bar> * u \<le> 1 / 2 * u"
    using u0 by (simp add: mult_right_mono)
  moreover have "\<bar>of_int n - x / u\<bar> * u = \<bar>r - x\<bar>"
  proof -
    have "\<bar>of_int n - x / u\<bar> * u = \<bar>(of_int n - x / u) * u\<bar>"
      using u0 by (simp add: abs_mult)
    also have "(of_int n - x / u) * u = r - x"
      using u0 by (simp add: r field_simps)
    finally show ?thesis .
  qed
  ultimately have b: "\<bar>r - x\<bar> \<le> u / 2" by simp
  have h: "u / 2 = 2 powi (e - 53)"
  proof -
    have "(2::real) powi (e - 53 + 1) = 2 powi (e - 53) * 2 powi 1"
      by (rule power_int_add) simp
    then show ?thesis by (simp add: u_def)
  qed
  show ?thesis
  proof (cases "- 1022 \<le> ilog2 \<bar>x\<bar>")
    case True
    then have e: "e = ilog2 \<bar>x\<bar>" by (simp add: e_def)
    have "2 powi e \<le> \<bar>x\<bar>" unfolding e using ilog2_bounds [of "\<bar>x\<bar>"] False by simp
    moreover have "(2::real) powi (e - 53) = 2 powi e / 2 ^ 53"
    proof -
      have "(2::real) powi (e - 53 + 53) = 2 powi (e - 53) * 2 powi 53"
        by (rule power_int_add) simp
      then show ?thesis by simp
    qed
    ultimately have "u / 2 \<le> \<bar>x\<bar> / 2 ^ 53" unfolding h by (simp add: divide_right_mono)
    then have "\<bar>r - x\<bar> \<le> \<bar>x\<bar> / 2 ^ 53" using b by (rule order_trans [rotated])
    moreover have "(0::real) \<le> 2 powi (- 1075)" by (rule zero_le_power_int) simp
    ultimately show ?thesis by (rule add_increasing2 [rotated])
  next
    case False
    then have "e = - 1022" by (simp add: e_def)
    then have "u / 2 = 2 powi (- 1075)" unfolding h by simp
    then have "\<bar>r - x\<bar> \<le> 2 powi (- 1075)" using b by (simp only:)
    moreover have "0 \<le> \<bar>x\<bar> / 2 ^ 53" by simp
    ultimately show ?thesis by (rule add_increasing [rotated])
  qed
qed

section \<open>Properties of the renderer\<close>

subsection \<open>The stages of a call\<close>

lemma plot_column_keeps:
  "plot_column df opts end_date padding column ax = Inr ax' \<Longrightarrow>
     xlim ax' = xlim ax \<and> spans ax' = spans ax \<and> ylim ax' = ylim ax"
  by (auto simp: plot_column_def Let_def split: option.splits if_splits sum.splits)

lemma columns_loop_keeps:
  "columns_loop df opts end_date padding cs ax = Inr ax' \<Longrightarrow>
     xlim ax' = xlim ax \<and> spans ax' = spans ax \<and> ylim ax' = ylim ax"
proof (induction cs arbitrary: ax)
  case Nil
  then show ?case by simp
next
  case (Cons a cs)
  from Cons.prems obtain mid where mid: "plot_column df opts end_date padding a ax = Inr mid"
    and rest: "columns_loop df opts end_date padding cs mid = Inr ax'"
    by (auto split: sum.splits)
  show ?case using plot_column_keeps [OF mid] Cons.IH [OF rest] by simp
qed

text \<open>A column that is present, and not empty when its last cell is wanted, is drawn.\<close>

lemma plot_column_succeeds:
  assumes "map_of (columns df) column = Some ys"
    and "show_current_value opts \<longrightarrow>
           ys \<noteq> [] \<and> (\<exists>off. td_mul_0_8 padding = Inr off \<and> in_bounds (end_date + off))"
  shows "\<exists>ax'. plot_column df opts end_date padding column ax = Inr ax'"
  using assms by (auto simp: plot_column_def Let_def ts_add_def)

lemma columns_loop_succeeds:
  assumes "\<forall>column \<in> set cs. \<exists>ys. map_of (columns df) column = Some ys \<and>
             (show_current_value opts \<longrightarrow> ys \<noteq> [])"
    and "show_current_value opts \<longrightarrow>
           (\<exists>off. td_mul_0_8 padding = Inr off \<and> in_bounds (end_date + off))"
  shows "\<exists>ax'. columns_loop df opts end_date padding cs ax = Inr ax'"
  using assms(1)
proof (induction cs arbitrary: ax)
  case Nil
  show ?case by simp
next
  case (Cons a cs)
  then obtain ys where ys: "map_of (columns df) a = Some ys"
    and ne: "show_current_value opts \<longrightarrow> ys \<noteq> []" by auto
  have "\<exists>ax'. plot_column df opts end_date padding a ax = Inr ax'"
    using plot_column_succeeds [OF ys] ne assms(2) by blast
  then obtain mid where "plot_column df opts end_date padding a ax = Inr mid" by blast
  then show ?case using Cons by simp
qed

lemma columns_present:
  assumes "column \<in> set (map fst (columns df))"
  shows "\<exists>ys. map_of (columns df) column = Some ys \<and> (column, ys) \<in> set (columns df)"
proof -
  from assms have "map_of (columns df) column \<noteq> None"
    by (simp add: map_of_eq_None_iff)
  then obtain ys where "map_of (columns df) column = Some ys" by blast
  then show ?thesis using map_of_SomeD by fast
qed

text \<open>
  The conditions under which the call returns a chart: the index is not empty, the
  range of the dates, the padding and the limits stay within 64 bits, every column has
  a last cell when the callout is requested and its label position stays within 64 bits,
  and the upper y limit is finite.
\<close>

lemma plot_time_series_succeeds:
  assumes "index df \<noteq> []"
    and "in_bounds (Max (set (index df)) - Min (set (index df)))"
    and "Timedelta_days (td_days (Max (set (index df)) - Min (set (index df)))) (x_padding opts)
           = Inr padding"
    and "in_bounds (Min (set (index df)) - padding)"
    and "in_bounds (Max (set (index df)) + padding)"
    and "show_current_value opts \<longrightarrow>
           (\<forall>col \<in> set (columns df). snd col \<noteq> []) \<and>
           (\<exists>off. td_mul_0_8 padding = Inr off \<and> in_bounds (Max (set (index df)) + off))"
    and "py_max_float (pf_mul (df_max_max df) double_1_1) 15 = Fin t"
  shows "\<exists>ax1.
           columns_loop df opts (Max (set (index df))) padding (map fst (columns df))
             \<lparr>xlim = (Min (set (index df)) - padding, Max (set (index df)) + padding),
              spans = (if add_recession_shading opts
                       then concat (map (shade (Min (set (index df)) - padding)
                                               (Max (set (index df)) + padding)) recession_dates)
                       else []),
              lines = [], hlines = [], texts = [], ylim = (0, 1)\<rparr> = Inr ax1 \<and>
           plot_time_series df opts = Inr (ax1\<lparr>ylim := (0, t)\<rparr>)"
proof -
  let ?ax0 = "\<lparr>xlim = (Min (set (index df)) - padding, Max (set (index df)) + padding),
              spans = (if add_recession_shading opts
                       then concat (map (shade (Min (set (index df)) - padding)
                                               (Max (set (index df)) + padding)) recession_dates)
                       else []),
              lines = [], hlines = [], texts = [], ylim = (0, 1)\<rparr>"
  have cols: "\<forall>column \<in> set (map fst (columns df)).
                \<exists>ys. map_of (columns df) column = Some ys \<and> (show_current_value opts \<longrightarrow> ys \<noteq> [])"
  proof
    fix column assume "column \<in> set (map fst (columns df))"
    from columns_present [OF this] obtain ys where
      ys: "map_of (columns df) column = Some ys" and mem: "(column, ys) \<in> set (columns df)"
      by blast
    have "show_current_value opts \<longrightarrow> ys \<noteq> []" using assms(6) mem by force
    then show "\<exists>ys. map_of (columns df) column = Some ys \<and> (show_current_value opts \<longrightarrow> ys \<noteq> [])"
      using ys by blast
  qed
  have "\<exists>ax1. columns_loop df opts (Max (set (index df))) padding (map fst (columns df)) ?ax0
          = Inr ax1"
    using columns_loop_succeeds [OF cols] assms(6) by blast
  then obtain ax1 where
    loop: "columns_loop df opts (Max (set (index df))) padding (map fst (columns df)) ?ax0 = Inr ax1"
    by blast
  have "plot_time_series df opts = Inr (ax1\<lparr>ylim := (0, t)\<rparr>)"
    unfolding plot_time_series_def Let_def
    using assms(1,2,3,4,5,7) loop
    by (simp add: ts_diff_def ts_sub_def ts_add_def set_ylim_def)
  then show ?thesis using loop by blast
qed

end
